theory Spec2Isabelle
  imports Complex_Main "HOL-Library.Sublist"
begin

section \<open>Strings and records\<close>

text \<open>
  A Go string is modelled by the sequence of code points that \<^verbatim>\<open>[]rune(s)\<close> and
  \<^verbatim>\<open>for _, r := range s\<close> yield (an invalid byte is the rune U+FFFD there). A string is
  empty exactly when this sequence is empty, so the test \<^verbatim>\<open>a == ""\<close> is \<open>a = []\<close>.
\<close>

type_synonym rune = nat

type_synonym gostring = "rune list"

definition runes :: "string \<Rightarrow> gostring" where
  "runes s = map of_char s"

text \<open>The struct \<^verbatim>\<open>Album\<close> of rymcheck.go.\<close>

record Album =
  RYMAlbumID :: gostring
  ID :: gostring
  Name :: gostring
  AlbumArtist :: gostring
  ProductionYear :: int
  Overview :: gostring
  PrimaryImageTag :: gostring

section \<open>The edit distance of golang-levenshtein\<close>

text \<open>
  \<^verbatim>\<open>similarity\<close> calls \<^verbatim>\<open>levenshtein.DistanceForStrings(source, target, levenshtein.DefaultOptions)\<close>
  of the package github.com/texttheater/golang-levenshtein. The package's \<^verbatim>\<open>Options\<close> struct
  holds the three operation costs and the match predicate. Its \<^verbatim>\<open>DefaultOptions\<close> are,
  in the words of the package, "the default options without substitution: insertion cost
  is 1, deletion cost is 1, substitution cost is 2 (meaning insert and delete), and two
  runes match iff they are identical"; the options with substitution cost 1 are its
  \<^verbatim>\<open>DefaultOptionsWithSub\<close>, which \<^verbatim>\<open>similarity\<close> does not use.
\<close>

record Options =
  InsCost :: int
  DelCost :: int
  SubCost :: int
  Matches :: "rune \<Rightarrow> rune \<Rightarrow> bool"

definition IdenticalRunes :: "rune \<Rightarrow> rune \<Rightarrow> bool" where
  "IdenticalRunes a b = (a = b)"

definition DefaultOptions :: Options where
  "DefaultOptions = \<lparr>InsCost = 1, DelCost = 1, SubCost = 2, Matches = IdenticalRunes\<rparr>"

text \<open>
  \<^verbatim>\<open>DistanceForStrings\<close> keeps two rows of the edit matrix, \<^verbatim>\<open>matrix[0]\<close> and
  \<^verbatim>\<open>matrix[1]\<close>, each of \<^verbatim>\<open>width = len(target) + 1\<close> cells. Row \<open>i\<close> of the full matrix
  lives in \<^verbatim>\<open>matrix[i%2]\<close>. The body of the inner loop computes one cell from
  \<^verbatim>\<open>prev[j]\<close>, \<^verbatim>\<open>prev[j-1]\<close> and \<^verbatim>\<open>cur[j-1]\<close>.
\<close>

definition cell :: "Options \<Rightarrow> rune list \<Rightarrow> rune list \<Rightarrow> nat \<Rightarrow> int list \<Rightarrow> int list \<Rightarrow> nat \<Rightarrow> int" where
  "cell op source target i prev cur j =
     (let delCost = prev ! j + DelCost op;
          matchSubCost = prev ! (j - 1) +
            (if Matches op (source ! (i - 1)) (target ! (j - 1)) then 0 else SubCost op);
          insCost = cur ! (j - 1) + InsCost op
      in min delCost (min matchSubCost insCost))"

text \<open>\<^verbatim>\<open>for j := 1; j < width; j++ { cur[j] = min(...) }\<close>\<close>

definition fill_row :: "Options \<Rightarrow> rune list \<Rightarrow> rune list \<Rightarrow> nat \<Rightarrow> int list \<Rightarrow> int list \<Rightarrow> int list" where
  "fill_row op source target i prev cur =
     fold (\<lambda>j c. c[j := cell op source target i prev c j]) [1..<length target + 1] cur"

text \<open>The two rows after \<^verbatim>\<open>make\<close> and the first two initialisation loops.\<close>

definition init_matrix :: "Options \<Rightarrow> nat \<Rightarrow> int list list" where
  "init_matrix op width =
     (let m = map (\<lambda>i. (replicate width 0)[0 := int i * DelCost op]) [0..<2];
          row0 = fold (\<lambda>j r. r[j := int j * InsCost op]) [1..<width] (m ! 0)
      in m[0 := row0])"

text \<open>
  One turn of the outer loop, for row \<open>i\<close>: \<^verbatim>\<open>cur := matrix[i%2]\<close>,
  \<^verbatim>\<open>prev := matrix[(i-1)%2]\<close>, \<^verbatim>\<open>cur[0] = i * op.DelCost\<close>, then the inner loop. The two
  slices are different rows of the matrix, so writing \<^verbatim>\<open>cur\<close> leaves \<^verbatim>\<open>prev\<close> alone.
\<close>

definition row_step :: "Options \<Rightarrow> rune list \<Rightarrow> rune list \<Rightarrow> nat \<Rightarrow> int list list \<Rightarrow> int list list" where
  "row_step op source target i matrix =
     (let cur = matrix ! (i mod 2);
          prev = matrix ! ((i - 1) mod 2);
          cur0 = cur[0 := int i * DelCost op]
      in matrix[i mod 2 := fill_row op source target i prev cur0])"

definition DistanceForStrings :: "rune list \<Rightarrow> rune list \<Rightarrow> Options \<Rightarrow> int" where
  "DistanceForStrings source target op =
     (let height = length source + 1;
          width = length target + 1;
          matrix = fold (row_step op source target) [1..<height] (init_matrix op width)
      in matrix ! ((height - 1) mod 2) ! (width - 1))"

section \<open>The similarity scorer\<close>

text \<open>
  \<^verbatim>\<open>similarity\<close> returns a \<^verbatim>\<open>float64\<close>. The distance and the lengths are integers far
  below \<open>2^53\<close>, so both conversions are exact; the model computes the quotient and the
  difference in the reals and leaves the two roundings out. The program only compares the
  score with 0.75: for that the roundings matter for no string of fewer than \<open>2^50\<close> code
  points, the exact score being either 0.75, which the floating-point operations compute
  exactly, or at least \<open>1 / (4 * maxLen)\<close> away from it.
\<close>

definition similarity :: "gostring \<Rightarrow> gostring \<Rightarrow> real" where
  "similarity a b =
     (if a = [] \<or> b = [] then 0
      else
        let d = DistanceForStrings a b DefaultOptions;
            maxLen = length a;
            maxLen = (if length b > maxLen then length b else maxLen)
        in if maxLen = 0 then 1 else 1 - real_of_int d / real maxLen)"

section \<open>The text normalizer\<close>

text \<open>
  \<^verbatim>\<open>normalize\<close> calls into Go's Unicode libraries: \<^verbatim>\<open>strings.ToLower\<close> (which maps
  \<^verbatim>\<open>unicode.ToLower\<close> over the runes), \<^verbatim>\<open>norm.NFD.String\<close> of golang.org/x/text,
  \<^verbatim>\<open>unicode.Is(unicode.Mn, r)\<close>, \<^verbatim>\<open>unicode.IsLetter\<close>, \<^verbatim>\<open>unicode.IsNumber\<close>,
  \<^verbatim>\<open>unicode.IsSpace\<close>. Their tables are not part of the repository; the model takes them
  as a parameter \<open>U\<close>.
\<close>

record Unicode =
  ToLower :: "rune \<Rightarrow> rune"
  NFD :: "rune list \<Rightarrow> rune list"
  IsMn :: "rune \<Rightarrow> bool"
  IsLetter :: "rune \<Rightarrow> bool"
  IsNumber :: "rune \<Rightarrow> bool"
  IsSpace :: "rune \<Rightarrow> bool"

text \<open>\<^verbatim>\<open>strings.ToLower\<close>: the case mapping, rune by rune.\<close>

definition strings_ToLower :: "Unicode \<Rightarrow> gostring \<Rightarrow> gostring" where
  "strings_ToLower U s = map (ToLower U) s"

text \<open>
  The loop of \<^verbatim>\<open>normalize\<close> over the decomposed string, writing to the builder \<open>b\<close>:
  a nonspacing mark is skipped, a letter, number or white space rune is written, anything
  else is dropped.
\<close>

fun strip_loop :: "Unicode \<Rightarrow> gostring \<Rightarrow> gostring \<Rightarrow> gostring" where
  "strip_loop U b [] = b"
| "strip_loop U b (r # t) =
     (if IsMn U r then strip_loop U b t
      else if IsLetter U r \<or> IsNumber U r \<or> IsSpace U r then strip_loop U (b @ [r]) t
      else strip_loop U b t)"

text \<open>
  \<^verbatim>\<open>strings.Fields\<close> splits around runs of white space. The loop is that of
  \<^verbatim>\<open>strings.FieldsFunc\<close>: \<open>cur\<close> is the field being read, if any, and \<open>spans\<close> the
  fields completed so far.
\<close>

fun FieldsFunc_loop :: "(rune \<Rightarrow> bool) \<Rightarrow> gostring list \<Rightarrow> gostring option \<Rightarrow> gostring \<Rightarrow> gostring list" where
  "FieldsFunc_loop f spans cur [] = (case cur of None \<Rightarrow> spans | Some w \<Rightarrow> spans @ [w])"
| "FieldsFunc_loop f spans cur (r # s) =
     (if f r then
        (case cur of Some w \<Rightarrow> FieldsFunc_loop f (spans @ [w]) None s
                   | None \<Rightarrow> FieldsFunc_loop f spans None s)
      else
        (case cur of None \<Rightarrow> FieldsFunc_loop f spans (Some [r]) s
                   | Some w \<Rightarrow> FieldsFunc_loop f spans (Some (w @ [r])) s))"

definition Fields :: "Unicode \<Rightarrow> gostring \<Rightarrow> gostring list" where
  "Fields U s = FieldsFunc_loop (IsSpace U) [] None s"

text \<open>\<^verbatim>\<open>strings.Join(elems, sep)\<close>\<close>

fun Join :: "gostring list \<Rightarrow> gostring \<Rightarrow> gostring" where
  "Join [] sep = []"
| "Join [w] sep = w"
| "Join (w # ws) sep = w @ sep @ Join ws sep"

text \<open>\<^verbatim>\<open>normalize\<close> of rymcheck.go (the name \<open>normalize\<close> is a constant of HOL).\<close>

definition normalize_str :: "Unicode \<Rightarrow> gostring \<Rightarrow> gostring" where
  "normalize_str U s =
     (let t = NFD U (strings_ToLower U s);
          b = strip_loop U [] t
      in Join (Fields U b) (runes '' ''))"

section \<open>Reconciliation: the loop of renderForm\<close>

text \<open>
  The inner loop of \<^verbatim>\<open>renderForm\<close> over the reference albums, for one local album with
  normalized title \<open>jfTitle\<close> and artist \<open>jfArtist\<close>. It returns the flag
  \<^verbatim>\<open>duplicate\<close> and the number of reference albums the loop has read when it ends; the
  \<^verbatim>\<open>break\<close> is the branch that does not go on to the rest of the list.
\<close>

fun scan_albums :: "Unicode \<Rightarrow> gostring \<Rightarrow> gostring \<Rightarrow> Album list \<Rightarrow> bool \<times> nat" where
  "scan_albums U jfTitle jfArtist [] = (False, 0)"
| "scan_albums U jfTitle jfArtist (rymAlbum # albums) =
     (let rymTitle = normalize_str U (strings_ToLower U (Name rymAlbum));
          rymArtist = normalize_str U (strings_ToLower U (AlbumArtist rymAlbum));
          titleSim = similarity jfTitle rymTitle;
          artistSim = similarity jfArtist rymArtist
      in if titleSim > 0.75 \<and> artistSim > 0.75 then (True, 1)
         else (let (duplicate, n) = scan_albums U jfTitle jfArtist albums in (duplicate, n + 1)))"

text \<open>
  The outer loop over \<^verbatim>\<open>albumList\<close>, appending the albums without a match to
  \<^verbatim>\<open>filtered\<close>.
\<close>

fun dedup_loop :: "Unicode \<Rightarrow> Album list \<Rightarrow> Album list \<Rightarrow> Album list \<Rightarrow> Album list" where
  "dedup_loop U albums filtered [] = filtered"
| "dedup_loop U albums filtered (jfAlbum # albumList) =
     (let jfTitle = normalize_str U (strings_ToLower U (Name jfAlbum));
          jfArtist = normalize_str U (strings_ToLower U (AlbumArtist jfAlbum));
          duplicate = fst (scan_albums U jfTitle jfArtist albums)
      in if \<not> duplicate then dedup_loop U albums (filtered @ [jfAlbum]) albumList
         else dedup_loop U albums filtered albumList)"

text \<open>
  \<^verbatim>\<open>renderForm\<close> reads and writes the package variable \<^verbatim>\<open>albumList\<close>: the model takes
  its value and returns the new one, next to the data handed to the page template
  (\<^verbatim>\<open>Albums\<close>, \<^verbatim>\<open>JSON\<close>, \<^verbatim>\<open>Err\<close>). \<open>tpl_JSON\<close> holds the albums that
  \<^verbatim>\<open>json.MarshalIndent\<close> serialises, \<open>[]\<close> standing for the empty string.
\<close>

record page_data =
  tpl_Albums :: "Album list"
  tpl_JSON :: "Album list"
  tpl_Err :: gostring

definition renderForm :: "Unicode \<Rightarrow> Album list \<Rightarrow> gostring \<Rightarrow> Album list \<Rightarrow> page_data \<times> Album list" where
  "renderForm U albums errMsg albumList =
     (let jsonOut = (if length albums > 0 then albums else []);
          filtered = dedup_loop U albums [] albumList;
          albumList = filtered
      in (\<lparr>tpl_Albums = albumList, tpl_JSON = jsonOut, tpl_Err = errMsg\<rparr>, albumList))"

section \<open>The catalog fetcher\<close>

text \<open>
  \<^verbatim>\<open>itemsResponse\<close>, the decoded body of one page.
\<close>

record itemsResponse =
  Items :: "Album list"
  TotalRecordCount :: int

text \<open>
  What varies in the request for a page: the query parameters \<^verbatim>\<open>StartIndex\<close> and
  \<^verbatim>\<open>Limit\<close> (the item type, sort order and field list are constants).
\<close>

record page_request =
  StartIndex :: int
  Limit :: int

text \<open>
  What one turn of the loop can meet, in the order the code checks it:
  \<^verbatim>\<open>http.NewRequestWithContext\<close> fails; \<^verbatim>\<open>c.HTTP.Do\<close> fails; a response arrives, with
  its status code and the result of decoding its body (\<open>None\<close> when the JSON decoder
  fails).
\<close>

datatype page_outcome =
    RequestNotBuilt
  | TransportFailed
  | Responded int "itemsResponse option"

datatype fetch_error = ErrParseBaseURL | ErrNewRequest | ErrTransport | ErrBadStatus int | ErrDecode

definition pageSize :: int where
  "pageSize = 200"

definition StatusOK :: int where
  "StatusOK = 200"

text \<open>
  The result of the fetch: the requests sent, in order, and the two values the Go function
  returns, the albums (\<open>[]\<close> for \<^verbatim>\<open>nil\<close>) and the error (\<open>None\<close> for \<^verbatim>\<open>nil\<close>).
  The loop has no bound of its own: a fetch that never returns is the value \<open>None\<close>
  of the option type. \<^verbatim>\<open>startIndex\<close> is a Go \<^verbatim>\<open>int\<close>; the model counts in the
  integers.
\<close>

type_synonym fetch_result = "page_request list \<times> Album list \<times> fetch_error option"

partial_function (option) GetAllAlbums_loop ::
  "(page_request \<Rightarrow> page_outcome) \<Rightarrow> int \<Rightarrow> Album list \<Rightarrow> page_request list \<Rightarrow> fetch_result option" where
  "GetAllAlbums_loop Do startIndex all sent =
     (let req = \<lparr>StartIndex = startIndex, Limit = pageSize\<rparr> in
      case Do req of
        RequestNotBuilt \<Rightarrow> Some (sent, [], Some ErrNewRequest)
      | TransportFailed \<Rightarrow> Some (sent @ [req], [], Some ErrTransport)
      | Responded status body \<Rightarrow>
          if status \<noteq> StatusOK then Some (sent @ [req], [], Some (ErrBadStatus status))
          else (case body of
                  None \<Rightarrow> Some (sent @ [req], [], Some ErrDecode)
                | Some ir \<Rightarrow>
                    (let all' = all @ Items ir;
                         startIndex' = startIndex + int (length (Items ir))
                     in if startIndex' \<ge> TotalRecordCount ir \<or> length (Items ir) = 0
                        then Some (sent @ [req], all', None)
                        else GetAllAlbums_loop Do startIndex' all' (sent @ [req]))))"

text \<open>
  The client, as far as \<^verbatim>\<open>GetAllAlbums\<close> uses it: whether \<^verbatim>\<open>url.Parse(c.BaseURL)\<close>
  succeeds, and what the server behind \<^verbatim>\<open>c.HTTP\<close> answers to the request of a page. The
  answer is a function of the request: within one fetch no two requests have the same
  \<^verbatim>\<open>StartIndex\<close>, since the loop ends at a page without items.
\<close>

record Client =
  BaseURL_parses :: bool
  Do :: "page_request \<Rightarrow> page_outcome"

definition GetAllAlbums :: "Client \<Rightarrow> fetch_result option" where
  "GetAllAlbums c =
     (if \<not> BaseURL_parses c then Some ([], [], Some ErrParseBaseURL)
      else GetAllAlbums_loop (Do c) 0 [] [])"

section \<open>The reference catalog parser\<close>

text \<open>
  The reader's content is a sequence of bytes (numbers below 256), or a read error.
\<close>

type_synonym byte = nat

definition stripBOM :: "byte list \<Rightarrow> byte list" where
  "stripBOM b =
     (if length b \<ge> 3 \<and> b ! 0 = 0xEF \<and> b ! 1 = 0xBB \<and> b ! 2 = 0xBF then drop 3 b else b)"

text \<open>\<^verbatim>\<open>strings.TrimSpace\<close> and \<^verbatim>\<open>trimAll\<close>\<close>

definition TrimSpace :: "Unicode \<Rightarrow> gostring \<Rightarrow> gostring" where
  "TrimSpace U s = rev (dropWhile (IsSpace U) (rev (dropWhile (IsSpace U) s)))"

definition trimAll :: "Unicode \<Rightarrow> gostring list \<Rightarrow> gostring list" where
  "trimAll U xs = map (TrimSpace U) xs"

text \<open>
  \<^verbatim>\<open>strconv.Atoi\<close>, through \<^verbatim>\<open>strconv.ParseInt(s, 10, 0)\<close> and
  \<^verbatim>\<open>strconv.ParseUint\<close> on a 64-bit platform. The loop of \<^verbatim>\<open>ParseUint\<close> reads the
  string from the left and returns at the first character that is not a decimal digit (a
  syntax error, value 0) or at the first digit with which the number leaves the range of
  \<^verbatim>\<open>uint64\<close> (a range error, value \<open>2^64 - 1\<close>), whichever comes first.
  \<^verbatim>\<open>ParseInt\<close> takes the sign off, gives 0 on a syntax error and the nearest bound of
  \<^verbatim>\<open>int64\<close> when the number is out of its range. \<^verbatim>\<open>Atoi\<close> has a shortcut of its own
  for strings of fewer than 19 bytes, on which it returns what \<^verbatim>\<open>ParseInt\<close> returns.
\<close>

datatype num_error = ErrSyntax | ErrRange

fun ParseUint_loop :: "gostring \<Rightarrow> int \<Rightarrow> int \<times> num_error option" where
  "ParseUint_loop [] n = (n, None)"
| "ParseUint_loop (c # s) n =
     (if \<not> (48 \<le> c \<and> c \<le> 57) then (0, Some ErrSyntax)
      else if n \<ge> (2 ^ 64 - 1) div 10 + 1 then (2 ^ 64 - 1, Some ErrRange)
      else
        let n1 = n * 10 + (int c - 48)
        in if n1 > 2 ^ 64 - 1 then (2 ^ 64 - 1, Some ErrRange) else ParseUint_loop s n1)"

definition ParseUint :: "gostring \<Rightarrow> int \<times> num_error option" where
  "ParseUint s = (if s = [] then (0, Some ErrSyntax) else ParseUint_loop s 0)"

definition ParseInt :: "gostring \<Rightarrow> int \<times> num_error option" where
  "ParseInt s0 =
     (if s0 = [] then (0, Some ErrSyntax)
      else
        let neg = (hd s0 = 45);
            s = (if hd s0 = 43 \<or> hd s0 = 45 then tl s0 else s0);
            (un, err) = ParseUint s
        in if err = Some ErrSyntax then (0, err)
           else if \<not> neg \<and> un \<ge> 2 ^ 63 then (2 ^ 63 - 1, Some ErrRange)
           else if neg \<and> un > 2 ^ 63 then (- (2 ^ 63), Some ErrRange)
           else (if neg then - un else un, None))"

definition Atoi :: "gostring \<Rightarrow> int \<times> num_error option" where
  "Atoi s = ParseInt s"

text \<open>
  A run-time panic of an index expression, \<^verbatim>\<open>index out of range [i] with length n\<close>, is an
  outcome of its own beside a return.
\<close>

datatype panic = IndexOutOfRange nat nat

datatype 'a outcome = Panic panic | Returned 'a

datatype parse_error = ErrRead | ErrCSV | ErrEmptyCSV | ErrHeaderColumns nat nat

text \<open>
  The loop of \<^verbatim>\<open>parseRymCSV\<close> over the data rows. \<^verbatim>\<open>cols[6]\<close> is the first index
  expression evaluated; on a row of 7 or more columns the others (0, 5, 1, 2) are in range.
\<close>

fun rows_loop :: "Unicode \<Rightarrow> Album list \<Rightarrow> gostring list list \<Rightarrow> Album list outcome" where
  "rows_loop U out [] = Returned out"
| "rows_loop U out (cols # rows) =
     (let cols = trimAll U cols in
      if length cols \<le> 6 then Panic (IndexOutOfRange 6 (length cols))
      else
        let i = fst (Atoi (cols ! 6));
            alb = \<lparr>RYMAlbumID = cols ! 0, ID = [], Name = cols ! 5,
                   AlbumArtist = TrimSpace U (cols ! 1 @ runes '' '' @ cols ! 2),
                   ProductionYear = i, Overview = [], PrimaryImageTag = []\<rparr>;
            first = cols ! 1;
            last = cols ! 2;
            alb = alb\<lparr>AlbumArtist := TrimSpace U (Join [first, last] (runes '' ''))\<rparr>
        in rows_loop U (out @ [alb]) rows)"

text \<open>
  \<^verbatim>\<open>parseRymCSV\<close>. The reader of encoding/csv (\<^verbatim>\<open>cr.ReadAll()\<close> with
  \<^verbatim>\<open>FieldsPerRecord = -1\<close>) is the parameter \<open>csv_ReadAll\<close>: the rows of the input, or
  \<open>None\<close> for its error. The Go function returns the albums and the error.
\<close>

definition parseRymCSV ::
  "Unicode \<Rightarrow> (byte list \<Rightarrow> gostring list list option) \<Rightarrow> byte list option \<Rightarrow>
     (Album list \<times> parse_error option) outcome" where
  "parseRymCSV U csv_ReadAll r =
     (case r of
        None \<Rightarrow> Returned ([], Some ErrRead)
      | Some data \<Rightarrow>
          (let data = stripBOM data in
           case csv_ReadAll data of
             None \<Rightarrow> Returned ([], Some ErrCSV)
           | Some rows \<Rightarrow>
               if length rows = 0 then Returned ([], Some ErrEmptyCSV)
               else
                 let hdr = trimAll U (rows ! 0) in
                 if length hdr < 12 then Returned ([], Some (ErrHeaderColumns (length hdr) 12))
                 else (case rows_loop U [] (drop 1 rows) of
                         Panic p \<Rightarrow> Panic p
                       | Returned out \<Rightarrow> Returned (out, None))))"

section \<open>Notions used in the statements\<close>

text \<open>
  The recurrence of the full edit matrix, on the two prefixes read from their last rune
  backwards: \<open>edit_cost op (rev s) (rev t)\<close> is the cell of the prefixes \<open>s\<close> and \<open>t\<close>.
\<close>

fun edit_cost :: "Options \<Rightarrow> rune list \<Rightarrow> rune list \<Rightarrow> int" where
  "edit_cost op [] ys = int (length ys) * InsCost op"
| "edit_cost op (x # xs) [] = int (length (x # xs)) * DelCost op"
| "edit_cost op (x # xs) (y # ys) =
     min (edit_cost op xs (y # ys) + DelCost op)
       (min (edit_cost op xs ys + (if Matches op x y then 0 else SubCost op))
            (edit_cost op (x # xs) ys + InsCost op))"

text \<open>Cell \<open>(i, j)\<close> of the full matrix, and its row \<open>i\<close>.\<close>

definition prefix_cost :: "Options \<Rightarrow> rune list \<Rightarrow> rune list \<Rightarrow> nat \<Rightarrow> nat \<Rightarrow> int" where
  "prefix_cost op source target i j = edit_cost op (rev (take i source)) (rev (take j target))"

definition matrix_row :: "Options \<Rightarrow> rune list \<Rightarrow> rune list \<Rightarrow> nat \<Rightarrow> int list" where
  "matrix_row op source target i = map (prefix_cost op source target i) [0..<length target + 1]"

text \<open>
  The Levenshtein distance as the specification words it: insertions, deletions and
  substitutions of one code point, each of cost 1.
\<close>

fun levenshtein_spec :: "rune list \<Rightarrow> rune list \<Rightarrow> nat" where
  "levenshtein_spec [] ys = length ys"
| "levenshtein_spec (x # xs) [] = length (x # xs)"
| "levenshtein_spec (x # xs) (y # ys) =
     min (levenshtein_spec xs (y # ys) + 1)
       (min (levenshtein_spec xs ys + (if x = y then 0 else 1))
            (levenshtein_spec (x # xs) ys + 1))"

text \<open>The runes that the loop of \<^verbatim>\<open>normalize\<close> writes to the builder.\<close>

definition keep_rune :: "Unicode \<Rightarrow> rune \<Rightarrow> bool" where
  "keep_rune U r \<longleftrightarrow> \<not> IsMn U r \<and> (IsLetter U r \<or> IsNumber U r \<or> IsSpace U r)"

text \<open>
  The facts about the Unicode tables that idempotence rests on. A rune is settled when
  \<^verbatim>\<open>unicode.ToLower\<close> leaves it alone and NFD neither changes it nor lets it interact
  with its neighbours, as far as the runes that survive the loop are concerned (NFD may
  reorder or insert marks around it: the loop drops them). The tables are fit when NFD
  yields nothing that survives the loop from the empty string, the space U+0020 is a settled
  white space rune, and every letter or number that NFD yields from a lower-cased string is
  settled.
\<close>

definition settled :: "Unicode \<Rightarrow> rune \<Rightarrow> bool" where
  "settled U x \<longleftrightarrow>
     ToLower U x = x \<and>
     (\<forall>u v. strip_loop U [] (NFD U (u @ x # v)) =
            strip_loop U [] (NFD U u) @ x # strip_loop U [] (NFD U v))"

definition unicode_ok :: "Unicode \<Rightarrow> bool" where
  "unicode_ok U \<longleftrightarrow>
     strip_loop U [] (NFD U []) = [] \<and>
     IsSpace U 32 \<and> settled U 32 \<and>
     (\<forall>s x. x \<in> set (NFD U (strings_ToLower U s)) \<and> keep_rune U x \<and> \<not> IsSpace U x
        \<longrightarrow> settled U x)"

text \<open>
  NFD as the Unicode standard defines it: every rune is replaced by its full canonical
  decomposition, then every run of runes of non-zero combining class is sorted by class,
  runes of equal class keeping their order. Tables whose NFD is this one are fit as soon as
  the letters, numbers and white space runes have combining class 0, decompositions are
  full, \<^verbatim>\<open>unicode.ToLower\<close> is idempotent and the decomposition of a rune it leaves alone
  holds no letter or number it changes (\<open>canonical_tables_ok\<close> below).
\<close>

fun insert_mark :: "(rune \<Rightarrow> nat) \<Rightarrow> rune \<Rightarrow> rune list \<Rightarrow> rune list" where
  "insert_mark ccc x [] = [x]"
| "insert_mark ccc x (y # ys) = (if ccc x < ccc y then x # y # ys else y # insert_mark ccc x ys)"

fun canonical_order :: "(rune \<Rightarrow> nat) \<Rightarrow> rune list \<Rightarrow> rune list \<Rightarrow> rune list" where
  "canonical_order ccc marks [] = marks"
| "canonical_order ccc marks (x # xs) =
     (if ccc x = 0 then marks @ x # canonical_order ccc [] xs
      else canonical_order ccc (insert_mark ccc x marks) xs)"

definition canonical_NFD :: "(rune \<Rightarrow> rune list) \<Rightarrow> (rune \<Rightarrow> nat) \<Rightarrow> rune list \<Rightarrow> rune list" where
  "canonical_NFD decomp ccc s = canonical_order ccc [] (concat (map decomp s))"

text \<open>A field of \<^verbatim>\<open>strings.Fields\<close>: not empty, without white space.\<close>

definition word :: "(rune \<Rightarrow> bool) \<Rightarrow> gostring \<Rightarrow> bool" where
  "word f w \<longleftrightarrow> w \<noteq> [] \<and> (\<forall>x\<in>set w. \<not> f x)"

text \<open>
  The normalized title and artist name of an album, as both loops of \<^verbatim>\<open>renderForm\<close>
  compute them (\<^verbatim>\<open>jfTitle\<close>, \<^verbatim>\<open>jfArtist\<close>, \<^verbatim>\<open>rymTitle\<close>, \<^verbatim>\<open>rymArtist\<close>); the
  accepted match of the specification: both similarities strictly above 0.75.
\<close>

definition normalized_title :: "Unicode \<Rightarrow> Album \<Rightarrow> gostring" where
  "normalized_title U a = normalize_str U (strings_ToLower U (Name a))"

definition normalized_artist :: "Unicode \<Rightarrow> Album \<Rightarrow> gostring" where
  "normalized_artist U a = normalize_str U (strings_ToLower U (AlbumArtist a))"

definition accepted_match :: "Unicode \<Rightarrow> Album \<Rightarrow> Album \<Rightarrow> bool" where
  "accepted_match U l r \<longleftrightarrow>
     similarity (normalized_title U l) (normalized_title U r) > 0.75 \<and>
     similarity (normalized_artist U l) (normalized_artist U r) > 0.75"

definition has_match :: "Unicode \<Rightarrow> Album list \<Rightarrow> Album \<Rightarrow> bool" where
  "has_match U albums l \<longleftrightarrow> (\<exists>r \<in> set albums. accepted_match U l r)"

text \<open>
  The run of a fetch against a server \<open>D\<close>, page by page: the offset of the \<open>k\<close>-th
  request, the request, its outcome, the items it brings, whether it succeeds, and whether
  it is the page the loop stops at (the running count has reached the total the page
  reports, or the page brings no items).
\<close>

fun items_of :: "page_outcome \<Rightarrow> Album list" where
  "items_of (Responded status (Some ir)) = (if status = StatusOK then Items ir else [])"
| "items_of _ = []"

fun failure_of :: "page_outcome \<Rightarrow> fetch_error option" where
  "failure_of RequestNotBuilt = Some ErrNewRequest"
| "failure_of TransportFailed = Some ErrTransport"
| "failure_of (Responded status body) =
     (if status \<noteq> StatusOK then Some (ErrBadStatus status)
      else case body of None \<Rightarrow> Some ErrDecode | Some ir \<Rightarrow> None)"

fun offset :: "(page_request \<Rightarrow> page_outcome) \<Rightarrow> nat \<Rightarrow> int" where
  "offset D 0 = 0"
| "offset D (Suc k) =
     offset D k + int (length (items_of (D \<lparr>StartIndex = offset D k, Limit = pageSize\<rparr>)))"

definition request :: "(page_request \<Rightarrow> page_outcome) \<Rightarrow> nat \<Rightarrow> page_request" where
  "request D k = \<lparr>StartIndex = offset D k, Limit = pageSize\<rparr>"

definition outcome :: "(page_request \<Rightarrow> page_outcome) \<Rightarrow> nat \<Rightarrow> page_outcome" where
  "outcome D k = D (request D k)"

definition page_items :: "(page_request \<Rightarrow> page_outcome) \<Rightarrow> nat \<Rightarrow> Album list" where
  "page_items D k = items_of (outcome D k)"

definition page_ok :: "(page_request \<Rightarrow> page_outcome) \<Rightarrow> nat \<Rightarrow> bool" where
  "page_ok D k \<longleftrightarrow> failure_of (outcome D k) = None"

definition page_last :: "(page_request \<Rightarrow> page_outcome) \<Rightarrow> nat \<Rightarrow> bool" where
  "page_last D k \<longleftrightarrow>
     (case outcome D k of
        Responded status (Some ir) \<Rightarrow>
          status = StatusOK \<and> (offset D (Suc k) \<ge> TotalRecordCount ir \<or> length (Items ir) = 0)
      | _ \<Rightarrow> False)"

section \<open>Sample data for the closed instances\<close>

text \<open>
  A small set of tables: Basic Latin with its letters, digits and white space, the letter E
  with acute in both cases (U+00C9, U+00E9), which decomposes into the base letter and
  U+0301, the white space runes U+0085 and U+00A0, and the marks U+0300 to U+0319 with
  their combining classes (230, 232 for U+0315, 220 from U+0316 on). Every other rune is
  left alone and belongs to no class.
\<close>

definition sample_decomp :: "rune \<Rightarrow> rune list" where
  "sample_decomp r = (if r = 233 then [101, 769] else if r = 201 then [69, 769] else [r])"

definition sample_ccc :: "rune \<Rightarrow> nat" where
  "sample_ccc r =
     (if 768 \<le> r \<and> r \<le> 788 then 230 else if r = 789 then 232
      else if 790 \<le> r \<and> r \<le> 793 then 220 else 0)"

definition sample_unicode :: Unicode where
  "sample_unicode =
     \<lparr>ToLower = (\<lambda>r. if 65 \<le> r \<and> r \<le> 90 then r + 32 else if r = 201 then 233 else r),
      NFD = canonical_NFD sample_decomp sample_ccc,
      IsMn = (\<lambda>r. 768 \<le> r \<and> r \<le> 793),
      IsLetter = (\<lambda>r. (65 \<le> r \<and> r \<le> 90) \<or> (97 \<le> r \<and> r \<le> 122) \<or> r = 201 \<or> r = 233),
      IsNumber = (\<lambda>r. 48 \<le> r \<and> r \<le> 57),
      IsSpace = (\<lambda>r. r \<in> set [9, 10, 11, 12, 13, 32, 133, 160])\<rparr>"

text \<open>Sample albums for the closed instances below.\<close>

definition mk_album :: "string \<Rightarrow> string \<Rightarrow> Album" where
  "mk_album title artist =
     \<lparr>RYMAlbumID = [], ID = [], Name = runes title, AlbumArtist = runes artist,
      ProductionYear = 0, Overview = [], PrimaryImageTag = []\<rparr>"

definition jf_abbey :: Album where "jf_abbey = mk_album ''Abbey Road'' ''The Beatles''"

definition jf_kid_a :: Album where "jf_kid_a = mk_album ''Kid A'' ''Radiohead''"

definition jf_symbols :: Album where "jf_symbols = mk_album ''!!!'' ''The Beatles''"

definition rym_abbey :: Album where "rym_abbey = mk_album ''abbey road!'' ''the  beatles''"

definition jf_edge :: Album where "jf_edge = mk_album ''abcdefgh'' ''The Beatles''"

definition rym_edge :: Album where "rym_edge = mk_album ''abcdefgx'' ''The Beatles''"

text \<open>
  Two servers for the closed instances: one that serves 250 albums in pages of 200 and 50,
  one that answers the second request with status 500.
\<close>

definition two_page_server :: "page_request \<Rightarrow> page_outcome" where
  "two_page_server req =
     (if StartIndex req = 0
      then Responded 200 (Some \<lparr>Items = replicate 200 jf_abbey, TotalRecordCount = 250\<rparr>)
      else if StartIndex req = 200
      then Responded 200 (Some \<lparr>Items = replicate 50 jf_kid_a, TotalRecordCount = 250\<rparr>)
      else TransportFailed)"

definition failing_server :: "page_request \<Rightarrow> page_outcome" where
  "failing_server req =
     (if StartIndex req = 0
      then Responded 200 (Some \<lparr>Items = replicate 200 jf_abbey, TotalRecordCount = 250\<rparr>)
      else Responded 500 None)"

text \<open>
  The CSV reader on plain input, without quotes, carriage returns or bytes beyond ASCII:
  the records are the non-empty lines, the fields are what the commas separate. Other input
  is outside this sample reader (\<open>None\<close>).
\<close>

fun split_at :: "nat \<Rightarrow> nat list \<Rightarrow> nat list \<Rightarrow> nat list list" where
  "split_at sep cur [] = [cur]"
| "split_at sep cur (b # bs) = (if b = sep then cur # split_at sep [] bs else split_at sep (cur @ [b]) bs)"

definition csv_plain_ReadAll :: "byte list \<Rightarrow> gostring list list option" where
  "csv_plain_ReadAll data =
     (if \<exists>b \<in> set data. b = 34 \<or> b = 13 \<or> b \<ge> 128 then None
      else Some (map (split_at 44 []) (filter (\<lambda>l. l \<noteq> []) (split_at 10 [] data))))"

section \<open>What the two-row matrix computes\<close>

lemma edit_cost_Nil2: "edit_cost op xs [] = int (length xs) * DelCost op"
  by (cases xs) simp_all

lemma rev_take_pos:
  "0 < i \<Longrightarrow> i \<le> length xs \<Longrightarrow> rev (take i xs) = xs ! (i - 1) # rev (take (i - 1) xs)"
  by (cases i) (simp_all add: take_Suc_conv_app_nth)

lemma prefix_cost_0_left: "j \<le> length target \<Longrightarrow> prefix_cost op source target 0 j = int j * InsCost op"
  by (simp add: prefix_cost_def)

lemma prefix_cost_0_right: "i \<le> length source \<Longrightarrow> prefix_cost op source target i 0 = int i * DelCost op"
  by (simp add: prefix_cost_def edit_cost_Nil2)

lemma prefix_cost_step:
  assumes "0 < i" "i \<le> length source" "0 < j" "j \<le> length target"
  shows "prefix_cost op source target i j =
     min (prefix_cost op source target (i - 1) j + DelCost op)
       (min (prefix_cost op source target (i - 1) (j - 1) +
              (if Matches op (source ! (i - 1)) (target ! (j - 1)) then 0 else SubCost op))
            (prefix_cost op source target i (j - 1) + InsCost op))"
  using assms by (simp add: prefix_cost_def rev_take_pos)

lemma fill_row_prefix:
  assumes i: "0 < i" "i \<le> length source"
    and prev: "prev = matrix_row op source target (i - 1)"
    and len: "length cur = length target + 1"
    and c0: "cur ! 0 = prefix_cost op source target i 0"
    and n: "1 \<le> n" "n \<le> length target + 1"
  shows "(let c = fold (\<lambda>j c. c[j := cell op source target i prev c j]) [1..<n] cur
          in length c = length target + 1 \<and> (\<forall>k<n. c ! k = prefix_cost op source target i k))"
  using n
proof (induction n)
  case 0
  then show ?case by simp
next
  case (Suc n)
  show ?case
  proof (cases "n = 0")
    case True
    then show ?thesis using len c0 by simp
  next
    case False
    then have n1: "1 \<le> n" and nle: "n \<le> length target" using Suc.prems by simp_all
    define c where "c = fold (\<lambda>j c. c[j := cell op source target i prev c j]) [1..<n] cur"
    have ih: "length c = length target + 1" "\<And>k. k < n \<Longrightarrow> c ! k = prefix_cost op source target i k"
      using Suc.IH n1 nle by (simp_all add: c_def Let_def)
    have pn: "prev ! n = prefix_cost op source target (i - 1) n"
      using nle by (simp add: prev matrix_row_def nth_append del: upt_Suc)
    have pn1: "prev ! (n - 1) = prefix_cost op source target (i - 1) (n - 1)"
      using nle by (simp add: prev matrix_row_def del: upt_Suc)
    have cn1: "c ! (n - 1) = prefix_cost op source target i (n - 1)"
      using ih(2)[of "n - 1"] n1 by simp
    have npos: "0 < n" using n1 by simp
    have cellv: "cell op source target i prev c n = prefix_cost op source target i n"
      unfolding cell_def Let_def pn pn1 cn1 prefix_cost_step[OF i npos nle, of op] ..
    have unfold: "fold (\<lambda>j c. c[j := cell op source target i prev c j]) [1..<Suc n] cur
        = c[n := cell op source target i prev c n]"
      using n1 by (simp add: c_def)
    have nlt: "n < length c" using ih(1) nle by simp
    have "c[n := prefix_cost op source target i n] ! k = prefix_cost op source target i k" if "k < Suc n" for k
      using that ih(2)[of k] nlt by (cases "k = n") simp_all
    then show ?thesis
      unfolding unfold Let_def cellv using ih(1) by simp
  qed
qed

lemma fill_row_correct:
  assumes "0 < i" "i \<le> length source"
    and "prev = matrix_row op source target (i - 1)"
    and "length cur = length target + 1"
    and "cur ! 0 = prefix_cost op source target i 0"
  shows "fill_row op source target i prev cur = matrix_row op source target i"
proof -
  have "1 \<le> length target + 1" "length target + 1 \<le> length target + 1" by simp_all
  from fill_row_prefix[OF assms this]
  show ?thesis
    unfolding fill_row_def matrix_row_def Let_def
    by (intro nth_equalityI) (simp_all del: upt_Suc)
qed

lemma first_row_prefix:
  assumes "length r = w" "r ! 0 = 0" "1 \<le> n" "n \<le> w"
  shows "(let c = fold (\<lambda>j r. r[j := int j * c0]) [1..<n] r
          in length c = w \<and> (\<forall>k<n. c ! k = int k * c0))"
  using assms(3,4)
proof (induction n)
  case 0
  then show ?case by simp
next
  case (Suc n)
  show ?case
  proof (cases "n = 0")
    case True
    then show ?thesis using assms(1,2) by simp
  next
    case False
    then have n1: "1 \<le> n" and nle: "n < w" using Suc.prems by simp_all
    define c where "c = fold (\<lambda>j r. r[j := int j * c0]) [1..<n] r"
    have ih: "length c = w" "\<And>k. k < n \<Longrightarrow> c ! k = int k * c0"
      using Suc.IH n1 nle by (simp_all add: c_def Let_def)
    have unfold: "fold (\<lambda>j r. r[j := int j * c0]) [1..<Suc n] r = c[n := int n * c0]"
      using n1 by (simp add: c_def)
    have "c[n := int n * c0] ! k = int k * c0" if "k < Suc n" for k
      using that ih(2)[of k] ih(1) nle by (cases "k = n") simp_all
    then show ?thesis
      unfolding unfold Let_def using ih(1) by simp
  qed
qed

lemma init_matrix_correct:
  "init_matrix op (length target + 1) =
     [matrix_row op source target 0, (replicate (length target + 1) 0)[0 := DelCost op]]"
proof -
  let ?w = "length target + 1"
  let ?r0 = "(replicate ?w (0::int))[0 := int 0 * DelCost op]"
  have m: "map (\<lambda>i. (replicate ?w (0::int))[0 := int i * DelCost op]) [0..<2]
      = [?r0, (replicate ?w 0)[0 := DelCost op]]"
    by (simp add: numeral_2_eq_2)
  have "length ?r0 = ?w" "?r0 ! 0 = 0" "1 \<le> ?w" "?w \<le> ?w" by simp_all
  from first_row_prefix[OF this, of "InsCost op"]
  have "fold (\<lambda>j r. r[j := int j * InsCost op]) [1..<?w] ?r0 = matrix_row op source target 0"
    unfolding Let_def matrix_row_def
    by (intro nth_equalityI) (simp_all add: prefix_cost_0_left del: upt_Suc replicate_Suc)
  then show ?thesis
    unfolding init_matrix_def Let_def m by simp
qed

lemma row_step_correct:
  assumes i: "0 < i" "i \<le> length source"
    and m: "length m = 2" "m ! ((i - 1) mod 2) = matrix_row op source target (i - 1)"
      "length (m ! (i mod 2)) = length target + 1"
  shows "(let m' = row_step op source target i m
          in length m' = 2 \<and> m' ! (i mod 2) = matrix_row op source target i \<and>
             length (m' ! (Suc i mod 2)) = length target + 1)"
proof -
  let ?cur0 = "(m ! (i mod 2))[0 := int i * DelCost op]"
  have "length ?cur0 = length target + 1" "?cur0 ! 0 = prefix_cost op source target i 0"
    using m(3) i(2) by (simp_all add: prefix_cost_0_right)
  from fill_row_correct[OF i m(2) this]
  have fr: "fill_row op source target i (m ! ((i - 1) mod 2)) ?cur0 = matrix_row op source target i" .
  have lt: "i mod 2 < length m" using m(1) by simp
  have ne: "i mod 2 \<noteq> Suc i mod 2" by presburger
  have eq: "Suc i mod 2 = (i - 1) mod 2" using i(1) by (cases i) simp_all
  define m' where "m' = m[i mod 2 := matrix_row op source target i]"
  have 1: "length m' = 2" by (simp add: m'_def m(1))
  have 2: "m' ! (i mod 2) = matrix_row op source target i"
    unfolding m'_def using lt by (rule nth_list_update_eq)
  have "m' ! (Suc i mod 2) = m ! (Suc i mod 2)"
    unfolding m'_def using ne by (rule nth_list_update_neq)
  also have "\<dots> = matrix_row op source target (i - 1)"
    unfolding eq by (rule m(2))
  finally have 3: "length (m' ! (Suc i mod 2)) = length target + 1"
    by (simp add: matrix_row_def del: upt_Suc)
  have "row_step op source target i m = m'"
    unfolding row_step_def Let_def fr m'_def ..
  then show ?thesis
    unfolding Let_def using 1 2 3 by (simp only: simp_thms)
qed

lemma outer_loop_prefix:
  assumes "1 \<le> n" "n \<le> length source + 1"
  shows "(let m = fold (row_step op source target) [1..<n] (init_matrix op (length target + 1))
          in length m = 2 \<and> m ! ((n - 1) mod 2) = matrix_row op source target (n - 1) \<and>
             length (m ! (n mod 2)) = length target + 1)"
  using assms
proof (induction n)
  case 0
  then show ?case by simp
next
  case (Suc n)
  show ?case
  proof (cases "n = 0")
    case True
    then show ?thesis
      using init_matrix_correct[of op target source] by simp
  next
    case False
    then have n: "0 < n" "n \<le> length source" using Suc.prems by simp_all
    define m where "m = fold (row_step op source target) [1..<n] (init_matrix op (length target + 1))"
    have ih: "length m = 2" "m ! ((n - 1) mod 2) = matrix_row op source target (n - 1)"
        "length (m ! (n mod 2)) = length target + 1"
      using Suc.IH n by (simp_all add: m_def Let_def)
    have unfold: "fold (row_step op source target) [1..<Suc n] (init_matrix op (length target + 1))
        = row_step op source target n m"
      using n by (simp add: m_def)
    from row_step_correct[OF n ih]
    show ?thesis unfolding unfold Let_def by simp
  qed
qed

lemma DistanceForStrings_edit_cost:
  "DistanceForStrings source target op = edit_cost op (rev source) (rev target)"
proof -
  have "1 \<le> length source + 1" "length source + 1 \<le> length source + 1" by simp_all
  from outer_loop_prefix[OF this, of op target]
  show ?thesis
    unfolding DistanceForStrings_def Let_def
    by (simp add: matrix_row_def prefix_cost_def nth_append del: upt_Suc)
qed

lemma edit_cost_nonneg:
  "0 \<le> InsCost op \<Longrightarrow> 0 \<le> DelCost op \<Longrightarrow> 0 \<le> SubCost op \<Longrightarrow> 0 \<le> edit_cost op xs ys"
  by (induction op xs ys rule: edit_cost.induct) auto

lemma edit_cost_same_le:
  "(\<And>x. Matches op x x) \<Longrightarrow> edit_cost op xs xs \<le> 0"
proof (induction xs)
  case Nil
  then show ?case by simp
next
  case (Cons x xs)
  have "edit_cost op (x # xs) (x # xs) \<le> edit_cost op xs xs + (if Matches op x x then 0 else SubCost op)"
    by simp
  also have "\<dots> \<le> 0" using Cons by simp
  finally show ?case .
qed

lemma edit_cost_commute:
  assumes "InsCost op = DelCost op" "\<And>a b. Matches op a b = Matches op b a"
  shows "edit_cost op xs ys = edit_cost op ys xs"
  using assms
proof (induction op xs ys rule: edit_cost.induct)
  case (1 op ys)
  then show ?case by (simp add: edit_cost_Nil2)
next
  case (2 op x xs)
  then show ?case by simp
next
  case (3 op x xs y ys)
  then show ?case by (simp add: min.commute min.left_commute)
qed

section \<open>Properties of the similarity scorer\<close>

lemma DefaultOptions_simps:
  "InsCost DefaultOptions = 1" "DelCost DefaultOptions = 1" "SubCost DefaultOptions = 2"
  "Matches DefaultOptions a b = (a = b)"
  by (simp_all add: DefaultOptions_def IdenticalRunes_def)

lemma distance_default_commute:
  "DistanceForStrings a b DefaultOptions = DistanceForStrings b a DefaultOptions"
  unfolding DistanceForStrings_edit_cost
  by (rule edit_cost_commute) (auto simp: DefaultOptions_simps)

lemma distance_default_same: "DistanceForStrings a a DefaultOptions = 0"
proof -
  have "edit_cost DefaultOptions (rev a) (rev a) \<le> 0"
    by (rule edit_cost_same_le) (simp add: DefaultOptions_simps)
  moreover have "0 \<le> edit_cost DefaultOptions (rev a) (rev a)"
    by (rule edit_cost_nonneg) (simp_all add: DefaultOptions_simps)
  ultimately show ?thesis
    unfolding DistanceForStrings_edit_cost by simp
qed

text \<open>
  C7. The scorer is symmetric, \<open>similarity a b = similarity b a\<close> for all strings, and it
  is 1 on two copies of a non-empty string.
\<close>

theorem similarity_symmetric_reflexive:
  "similarity a b = similarity b a \<and> (a \<noteq> [] \<longrightarrow> similarity a a = 1)"
proof
  show "similarity a b = similarity b a"
    unfolding similarity_def Let_def distance_default_commute[of a b] by auto
  show "a \<noteq> [] \<longrightarrow> similarity a a = 1"
    unfolding similarity_def Let_def distance_default_same by simp
qed

theorem similarity_symmetric_reflexive_witness:
  "similarity (runes ''abbey road'') (runes ''abby rd'') =
     similarity (runes ''abby rd'') (runes ''abbey road'') \<and>
   runes ''abbey road'' \<noteq> [] \<and> similarity (runes ''abbey road'') (runes ''abbey road'') = 1"
proof -
  have ne: "runes ''abbey road'' \<noteq> []" by (simp add: runes_def)
  show ?thesis
    using similarity_symmetric_reflexive[of "runes ''abbey road''" "runes ''abby rd''"] ne
    by blast
qed

text \<open>
  C8. Whenever either input string is empty, \<^verbatim>\<open>similarity\<close> returns 0, also when both are
  empty; the 0 is an ordinary returned value.
\<close>

theorem similarity_empty_is_zero:
  "similarity [] b = 0 \<and> similarity a [] = 0 \<and> similarity [] [] = 0"
  by (simp add: similarity_def)

lemma edit_cost_le_lengths:
  "edit_cost DefaultOptions xs ys \<le> int (length xs) + int (length ys)"
  by (induction DefaultOptions xs ys rule: edit_cost.induct) (simp_all add: DefaultOptions_simps)

text \<open>With substitutions at cost 2 the score of two non-empty strings ranges over \<open>[-1, 1]\<close>.\<close>

lemma similarity_range: "- 1 \<le> similarity a b \<and> similarity a b \<le> 1"
proof (cases "a = [] \<or> b = []")
  case True
  then show ?thesis by (auto simp: similarity_def)
next
  case False
  define m where "m = max (length a) (length b)"
  define d where "d = DistanceForStrings a b DefaultOptions"
  have m: "0 < m" using False by (cases a) (simp_all add: m_def)
  have d0: "0 \<le> d"
    unfolding d_def DistanceForStrings_edit_cost
    by (rule edit_cost_nonneg) (simp_all add: DefaultOptions_simps)
  have "d \<le> int (length a) + int (length b)"
    unfolding d_def DistanceForStrings_edit_cost
    using edit_cost_le_lengths[of "rev a" "rev b"] by simp
  also have "\<dots> \<le> 2 * int m" by (simp add: m_def)
  finally have d2: "real_of_int d \<le> 2 * real m" by linarith
  have s: "similarity a b = 1 - real_of_int d / real m"
    using False m by (auto simp: similarity_def Let_def m_def d_def max_def)
  have "real_of_int d / real m \<le> 2"
    using d2 m by (simp add: divide_le_eq)
  moreover have "0 \<le> real_of_int d / real m"
    using d0 m by simp
  ultimately show ?thesis unfolding s by simp
qed

text \<open>
  C9. For non-empty strings the scorer is said to return \<open>1 - d / max (len a) (len b)\<close>
  with \<open>d\<close> the Levenshtein distance over code points, a value in \<open>[0, 1]\<close>. The code
  passes \<^verbatim>\<open>DefaultOptions\<close>, whose substitution costs 2: on the one-rune strings "a" and
  "b" the distance it gets is 2 where the Levenshtein distance is 1, and the score is
  \<open>-1\<close> where the formula gives 0.
\<close>

theorem similarity_substitution_below_zero:
  "similarity (runes ''a'') (runes ''b'') = - 1 \<and>
   DistanceForStrings (runes ''a'') (runes ''b'') DefaultOptions = 2 \<and>
   levenshtein_spec (runes ''a'') (runes ''b'') = 1 \<and>
   1 - real (levenshtein_spec (runes ''a'') (runes ''b'')) /
         real (max (length (runes ''a'')) (length (runes ''b''))) = 0"
  by (simp add: similarity_def DistanceForStrings_edit_cost runes_def DefaultOptions_simps)

section \<open>The normalizer is idempotent\<close>

lemma strip_loop_filter: "strip_loop U b t = b @ filter (keep_rune U) t"
  by (induction t arbitrary: b) (simp_all add: keep_rune_def)

lemma FieldsFunc_loop_words:
  assumes "w \<in> set (FieldsFunc_loop f spans cur s)"
    and "case cur of None \<Rightarrow> True | Some c \<Rightarrow> word f c"
  shows "w \<in> set spans \<or>
     (word f w \<and> set w \<subseteq> (case cur of None \<Rightarrow> {} | Some c \<Rightarrow> set c) \<union> set s)"
  using assms
proof (induction s arbitrary: spans cur)
  case Nil
  then show ?case by (auto split: option.splits)
next
  case (Cons r s)
  show ?case
  proof (cases cur)
    case None
    show ?thesis
    proof (cases "f r")
      case True
      then show ?thesis using Cons.IH[of spans None] Cons.prems None by auto
    next
      case False
      then show ?thesis using Cons.IH[of spans "Some [r]"] Cons.prems None
        by (auto simp: word_def)
    qed
  next
    case (Some c)
    show ?thesis
    proof (cases "f r")
      case True
      then show ?thesis using Cons.IH[of "spans @ [c]" None] Cons.prems Some by auto
    next
      case False
      then show ?thesis using Cons.IH[of spans "Some (c @ [r])"] Cons.prems Some
        by (auto simp: word_def)
    qed
  qed
qed

lemma Fields_words:
  "w \<in> set (Fields U s) \<Longrightarrow> word (IsSpace U) w \<and> set w \<subseteq> set s"
  using FieldsFunc_loop_words[of w "IsSpace U" "[]" None s]
  by (simp add: Fields_def)

lemma FieldsFunc_loop_word:
  "\<forall>x\<in>set w. \<not> f x \<Longrightarrow> w \<noteq> [] \<Longrightarrow>
   FieldsFunc_loop f spans None (w @ s) = FieldsFunc_loop f spans (Some w) s"
  and "\<forall>x\<in>set w. \<not> f x \<Longrightarrow>
   FieldsFunc_loop f spans (Some c) (w @ s) = FieldsFunc_loop f spans (Some (c @ w)) s"
proof -
  have 2: "\<forall>x\<in>set w. \<not> f x \<Longrightarrow>
   FieldsFunc_loop f spans (Some c) (w @ s) = FieldsFunc_loop f spans (Some (c @ w)) s" for c w
    by (induction w arbitrary: c) simp_all
  then show "\<forall>x\<in>set w. \<not> f x \<Longrightarrow>
   FieldsFunc_loop f spans (Some c) (w @ s) = FieldsFunc_loop f spans (Some (c @ w)) s" .
  show "\<forall>x\<in>set w. \<not> f x \<Longrightarrow> w \<noteq> [] \<Longrightarrow>
   FieldsFunc_loop f spans None (w @ s) = FieldsFunc_loop f spans (Some w) s"
    using 2[of "tl w" "[hd w]"] by (cases w) simp_all
qed

lemma Fields_Join:
  assumes "f 32" "\<forall>w\<in>set ws. word f w"
  shows "FieldsFunc_loop f spans None (Join ws [32]) = spans @ ws"
  using assms(2)
proof (induction ws "[32::nat]" arbitrary: spans rule: Join.induct)
  case 1
  then show ?case by simp
next
  case (2 w)
  then show ?case
    using FieldsFunc_loop_word(1)[of w f spans "[]"] by (simp add: word_def)
next
  case (3 w v va)
  have "FieldsFunc_loop f spans None (w @ 32 # Join (v # va) [32])
      = FieldsFunc_loop f spans (Some w) (32 # Join (v # va) [32])"
    using 3(2) by (intro FieldsFunc_loop_word(1)) (simp_all add: word_def)
  also have "\<dots> = FieldsFunc_loop f (spans @ [w]) None (Join (v # va) [32])"
    using assms(1) by simp
  also have "\<dots> = (spans @ [w]) @ v # va"
    using 3 by simp
  finally show ?case by simp
qed

lemma strip_NFD_settled:
  assumes "strip_loop U [] (NFD U []) = []" "\<forall>x\<in>set t. settled U x"
  shows "strip_loop U [] (NFD U t) = t"
  using assms(2)
proof (induction t)
  case Nil
  then show ?case using assms(1) by simp
next
  case (Cons x t)
  then have "strip_loop U [] (NFD U ([] @ x # t)) =
      strip_loop U [] (NFD U []) @ x # strip_loop U [] (NFD U t)"
    unfolding settled_def by (metis list.set_intros(1))
  then show ?case using Cons assms(1) by simp
qed

lemma ToLower_settled: "\<forall>x\<in>set t. settled U x \<Longrightarrow> strings_ToLower U t = t"
  unfolding strings_ToLower_def settled_def by (induction t) simp_all

lemma set_Join: "set (Join ws sep) \<subseteq> \<Union> (set ` set ws) \<union> set sep"
  by (induction ws sep rule: Join.induct) auto

lemma runes_space: "runes '' '' = [32]"
  by (simp add: runes_def)

text \<open>
  C6. The normalizer is idempotent: \<open>normalize (normalize s) = normalize s\<close> for every
  string \<open>s\<close>, for Unicode tables that are fit in the sense of \<open>unicode_ok\<close>.
\<close>

theorem normalize_idempotent:
  assumes ok: "unicode_ok U"
  shows "normalize_str U (normalize_str U s) = normalize_str U s"
proof -
  define b where "b = strip_loop U [] (NFD U (strings_ToLower U s))"
  define ws where "ws = Fields U b"
  define out where "out = Join ws [32]"
  have out: "normalize_str U s = out"
    by (simp add: normalize_str_def Let_def out_def ws_def b_def runes_space)
  have b: "set b \<subseteq> {x \<in> set (NFD U (strings_ToLower U s)). keep_rune U x}"
    by (auto simp: b_def strip_loop_filter)
  have words: "word (IsSpace U) w \<and> set w \<subseteq> set b" if "w \<in> set ws" for w
    using Fields_words[of w U b] that by (simp add: ws_def)
  have sp: "IsSpace U 32" "settled U 32" and e: "strip_loop U [] (NFD U []) = []"
    using ok by (simp_all add: unicode_ok_def)
  have settled: "\<forall>x\<in>set out. settled U x"
  proof
    fix x assume "x \<in> set out"
    then consider w where "w \<in> set ws" "x \<in> set w" | "x = 32"
      using set_Join[of ws "[32]"] by (auto simp: out_def)
    then show "settled U x"
    proof cases
      case 1
      then have "x \<in> set (NFD U (strings_ToLower U s))" "keep_rune U x" "\<not> IsSpace U x"
        using words[of w] b by (auto simp: word_def)
      then show ?thesis using ok unfolding unicode_ok_def by blast
    next
      case 2
      then show ?thesis using sp by simp
    qed
  qed
  have 1: "strings_ToLower U out = out"
    using settled by (rule ToLower_settled)
  have 2: "strip_loop U [] (NFD U out) = out"
    using e settled by (rule strip_NFD_settled)
  have 3: "Fields U out = ws"
    unfolding Fields_def out_def
    using Fields_Join[of "IsSpace U" ws "[]"] sp(1) words by simp
  have "normalize_str U out = Join ws [32]"
    by (simp add: normalize_str_def Let_def 1 2 3 runes_space)
  then have "normalize_str U out = out"
    by (simp only: out_def)
  then show ?thesis
    by (simp only: out)
qed

lemma set_insert_mark: "set (insert_mark ccc x ys) = insert x (set ys)"
  by (induction ys) auto

lemma filter_insert_mark: "\<not> P x \<Longrightarrow> filter P (insert_mark ccc x ys) = filter P ys"
  by (induction ys) auto

lemma set_canonical_order: "set (canonical_order ccc marks xs) = set marks \<union> set xs"
  by (induction xs arbitrary: marks) (auto simp: set_insert_mark)

lemma filter_canonical_order:
  assumes "\<And>x. P x \<Longrightarrow> ccc x = 0"
  shows "filter P (canonical_order ccc marks xs) = filter P marks @ filter P xs"
proof (induction xs arbitrary: marks)
  case Nil
  then show ?case by simp
next
  case (Cons x xs)
  show ?case
  proof (cases "ccc x = 0")
    case True
    then show ?thesis using Cons[of "[]"] by simp
  next
    case False
    then have "\<not> P x" using assms[of x] by auto
    then show ?thesis using False Cons[of "insert_mark ccc x marks"]
      by (simp add: filter_insert_mark)
  qed
qed

lemma canonical_tables_ok:
  assumes nfd: "NFD U = canonical_NFD decomp ccc"
    and starters: "\<And>r. keep_rune U r \<Longrightarrow> ccc r = 0"
    and full: "\<And>r x. x \<in> set (decomp r) \<Longrightarrow> decomp x = [x]"
    and lower_idem: "\<And>r. ToLower U (ToLower U r) = ToLower U r"
    and lower_decomp: "\<And>r x. ToLower U r = r \<Longrightarrow> x \<in> set (decomp r) \<Longrightarrow> keep_rune U x \<Longrightarrow> ToLower U x = x"
    and space: "IsSpace U 32" "\<not> IsMn U 32" "ToLower U 32 = 32" "decomp 32 = [32]"
  shows "unicode_ok U"
proof -
  have strip: "strip_loop U [] (NFD U s) = filter (keep_rune U) (concat (map decomp s))" for s
    unfolding strip_loop_filter nfd canonical_NFD_def
    using filter_canonical_order[of "keep_rune U" ccc "[]"] starters by simp
  have settledI: "settled U x" if "ToLower U x = x" "decomp x = [x]" "keep_rune U x" for x
    unfolding settled_def strip using that by simp
  have 1: "settled U 32"
    using space by (intro settledI) (simp_all add: keep_rune_def)
  have 2: "settled U x"
    if "x \<in> set (NFD U (strings_ToLower U s))" "keep_rune U x" for s x
  proof -
    from that(1) obtain r where r: "x \<in> set (decomp (ToLower U r))"
      unfolding nfd canonical_NFD_def set_canonical_order strings_ToLower_def by auto
    have "ToLower U x = x"
      using lower_decomp[OF lower_idem r that(2)] .
    moreover have "decomp x = [x]"
      using full[OF r] .
    ultimately show ?thesis using that(2) by (intro settledI)
  qed
  have 3: "strip_loop U [] (NFD U []) = []"
    unfolding strip by simp
  show ?thesis
    unfolding unicode_ok_def using 1 2 3 space(1) by blast
qed

lemma sample_simps:
  "ToLower sample_unicode r = (if 65 \<le> r \<and> r \<le> 90 then r + 32 else if r = 201 then 233 else r)"
  "NFD sample_unicode = canonical_NFD sample_decomp sample_ccc"
  "IsMn sample_unicode r = (768 \<le> r \<and> r \<le> 793)"
  "IsLetter sample_unicode r = ((65 \<le> r \<and> r \<le> 90) \<or> (97 \<le> r \<and> r \<le> 122) \<or> r = 201 \<or> r = 233)"
  "IsNumber sample_unicode r = (48 \<le> r \<and> r \<le> 57)"
  "IsSpace sample_unicode r = (r \<in> set [9, 10, 11, 12, 13, 32, 133, 160])"
  by (simp_all add: sample_unicode_def)

lemma sample_unicode_ok: "unicode_ok sample_unicode"
proof (rule canonical_tables_ok[where decomp = sample_decomp and ccc = sample_ccc])
  show "NFD sample_unicode = canonical_NFD sample_decomp sample_ccc"
    by (rule sample_simps(2))
  show "sample_ccc r = 0" if "keep_rune sample_unicode r" for r
    using that by (auto simp: keep_rune_def sample_simps(3) sample_ccc_def)
  show "sample_decomp x = [x]" if "x \<in> set (sample_decomp r)" for r x
    using that by (auto simp: sample_decomp_def split: if_splits)
  show "ToLower sample_unicode (ToLower sample_unicode r) = ToLower sample_unicode r" for r
    by (simp add: sample_simps(1))
  show "ToLower sample_unicode x = x"
    if "ToLower sample_unicode r = r" "x \<in> set (sample_decomp r)" "keep_rune sample_unicode x" for r x
    using that(1,2) by (auto simp: sample_simps(1) sample_decomp_def split: if_splits)
  show "IsSpace sample_unicode 32" "\<not> IsMn sample_unicode 32" "ToLower sample_unicode 32 = 32"
    "sample_decomp 32 = [32]"
    by (simp_all add: sample_simps sample_decomp_def)
qed

theorem normalize_idempotent_witness:
  "unicode_ok sample_unicode \<and>
   normalize_str sample_unicode (runes ''  Caf'' @ [201, 769, 790] @ runes '',  del   Mar! '') = runes ''cafe del mar'' \<and>
   normalize_str sample_unicode (normalize_str sample_unicode (runes ''  Caf'' @ [201, 769, 790] @ runes '',  del   Mar! ''))
     = runes ''cafe del mar''"
proof -
  have e: "normalize_str sample_unicode (runes ''  Caf'' @ [201, 769, 790] @ runes '',  del   Mar! '') = runes ''cafe del mar''"
    by code_simp
  show ?thesis
    using normalize_idempotent[OF sample_unicode_ok, of "runes ''  Caf'' @ [201, 769, 790] @ runes '',  del   Mar! ''"]
      sample_unicode_ok e by simp
qed

section \<open>Properties of the reconciliation\<close>

lemma scan_albums_fst:
  "fst (scan_albums U (normalized_title U l) (normalized_artist U l) albums) = has_match U albums l"
  by (induction albums)
     (auto simp: has_match_def accepted_match_def normalized_title_def normalized_artist_def
        Let_def split: prod.splits)

lemma scan_albums_snd:
  "snd (scan_albums U (normalized_title U l) (normalized_artist U l) albums) =
     length (takeWhile (\<lambda>r. \<not> accepted_match U l r) albums) + (if has_match U albums l then 1 else 0)"
  by (induction albums)
     (auto simp: has_match_def accepted_match_def normalized_title_def normalized_artist_def
        Let_def split: prod.splits)

lemma dedup_loop_filter:
  "dedup_loop U albums filtered albumList = filtered @ filter (\<lambda>l. \<not> has_match U albums l) albumList"
proof (induction albumList arbitrary: filtered)
  case Nil
  then show ?case by simp
next
  case (Cons l albumList)
  show ?case
    using scan_albums_fst[of U l albums] Cons[of "filtered @ [l]"] Cons[of filtered]
    by (simp add: normalized_title_def normalized_artist_def Let_def)
qed

lemma renderForm_state:
  "snd (renderForm U albums errMsg albumList) = filter (\<lambda>l. \<not> has_match U albums l) albumList"
  by (simp add: renderForm_def Let_def dedup_loop_filter)

lemma sample_matches:
  "accepted_match sample_unicode jf_abbey rym_abbey"
  "\<not> accepted_match sample_unicode jf_kid_a rym_abbey"
  "normalized_title sample_unicode jf_symbols = []"
  "jf_abbey \<noteq> jf_kid_a"
  by code_simp+

lemma sample_edge:
  "similarity (normalized_title sample_unicode jf_edge) (normalized_title sample_unicode rym_edge) = 0.75"
  "similarity (normalized_artist sample_unicode jf_edge) (normalized_artist sample_unicode rym_edge) = 1"
  by code_simp+

lemma has_match_simps:
  "has_match U [] l = False"
  "has_match U (r # albums) l = (accepted_match U l r \<or> has_match U albums l)"
  by (simp_all add: has_match_def)

text \<open>
  C1. Reconciliation leaves exactly the local albums for which no reference album is an
  accepted match, a reference album being an accepted match iff the similarity of the
  normalized titles exceeds 0.75 and the similarity of the normalized artist names exceeds
  0.75 (both strict, both needed). The scan of the reference list reads the albums in order
  up to and including the first accepted match and no further, and the albums kept stand in
  the order they had in the local list. The result is the new value of \<^verbatim>\<open>albumList\<close>,
  which the page shows.
\<close>

theorem reconcile_unmatched_in_order:
  "snd (renderForm U albums errMsg albumList) =
     filter (\<lambda>l. \<not> (\<exists>r \<in> set albums. accepted_match U l r)) albumList \<and>
   tpl_Albums (fst (renderForm U albums errMsg albumList)) = snd (renderForm U albums errMsg albumList) \<and>
   scan_albums U (normalized_title U l) (normalized_artist U l) albums =
     ((\<exists>r \<in> set albums. accepted_match U l r),
      length (takeWhile (\<lambda>r. \<not> accepted_match U l r) albums) +
        (if \<exists>r \<in> set albums. accepted_match U l r then 1 else 0)) \<and>
   subseq (snd (renderForm U albums errMsg albumList)) albumList"
proof (intro conjI)
  show 1: "snd (renderForm U albums errMsg albumList) =
     filter (\<lambda>l. \<not> (\<exists>r \<in> set albums. accepted_match U l r)) albumList"
    by (simp add: renderForm_state has_match_def)
  show "tpl_Albums (fst (renderForm U albums errMsg albumList)) = snd (renderForm U albums errMsg albumList)"
    by (simp add: renderForm_def Let_def)
  show "scan_albums U (normalized_title U l) (normalized_artist U l) albums =
     ((\<exists>r \<in> set albums. accepted_match U l r),
      length (takeWhile (\<lambda>r. \<not> accepted_match U l r) albums) +
        (if \<exists>r \<in> set albums. accepted_match U l r then 1 else 0))"
    using scan_albums_fst[of U l albums] scan_albums_snd[of U l albums]
    by (simp add: prod_eq_iff has_match_def)
  show "subseq (snd (renderForm U albums errMsg albumList)) albumList"
    unfolding 1 by (rule subseq_filter_left)
qed

theorem reconcile_unmatched_in_order_witness:
  "snd (renderForm sample_unicode [rym_abbey, rym_abbey] [] [jf_abbey, jf_kid_a]) = [jf_kid_a] \<and>
   scan_albums sample_unicode (normalized_title sample_unicode jf_abbey)
     (normalized_artist sample_unicode jf_abbey) [rym_abbey, rym_abbey] = (True, 1) \<and>
   similarity (normalized_title sample_unicode jf_edge) (normalized_title sample_unicode rym_edge) = 0.75 \<and>
   snd (renderForm sample_unicode [rym_edge] [] [jf_edge]) = [jf_edge]"
proof -
  have edge: "\<not> accepted_match sample_unicode jf_edge rym_edge"
    by (simp add: accepted_match_def sample_edge)
  show ?thesis
    using reconcile_unmatched_in_order[of sample_unicode "[rym_abbey, rym_abbey]" "[]"
        "[jf_abbey, jf_kid_a]" jf_abbey]
      reconcile_unmatched_in_order[of sample_unicode "[rym_edge]" "[]" "[jf_edge]" jf_edge]
      sample_matches(1,2) sample_edge(1) edge
    by simp
qed

lemma no_match_if_empty:
  assumes "normalized_title U l = [] \<or> normalized_artist U l = []"
  shows "\<not> has_match U albums l"
  using assms by (auto simp: has_match_def accepted_match_def similarity_def)

text \<open>
  C10. A local album whose normalized title or normalized artist name is empty is kept as
  unique whatever the reference list holds, an identical album included: a similarity with
  an empty string is 0 and never exceeds 0.75.
\<close>

theorem empty_normalized_field_is_unique:
  assumes "normalized_title U l = [] \<or> normalized_artist U l = []" and "l \<in> set albumList"
  shows "l \<in> set (snd (renderForm U albums errMsg albumList)) \<and>
    \<not> fst (scan_albums U (normalized_title U l) (normalized_artist U l) albums)"
  using no_match_if_empty[OF assms(1), of albums] assms(2)
  by (simp add: renderForm_state scan_albums_fst)

theorem empty_normalized_field_is_unique_witness:
  "normalized_title sample_unicode jf_symbols = [] \<and>
   jf_symbols \<in> set (snd (renderForm sample_unicode [jf_symbols] [] [jf_abbey, jf_symbols]))"
proof -
  have 1: "normalized_title sample_unicode jf_symbols = [] \<or> normalized_artist sample_unicode jf_symbols = []"
    using sample_matches(3) by simp
  have 2: "jf_symbols \<in> set [jf_abbey, jf_symbols]" by simp
  show ?thesis
    using empty_normalized_field_is_unique[OF 1 2, of "[jf_symbols]" "[]"] sample_matches(3) by simp
qed

text \<open>
  C2. Reconciliation is said to leave the local catalog alone and to keep nothing from one
  invocation to the next. \<^verbatim>\<open>renderForm\<close> ends with \<^verbatim>\<open>albumList = filtered\<close>: after a run
  against a reference list that matches an album, the catalog has lost that album, and a
  later run against the empty list shows less than it shows on the original catalog.
\<close>

theorem renderForm_result_persists_counterexample:
  "snd (renderForm sample_unicode [rym_abbey] [] [jf_abbey, jf_kid_a]) \<noteq> [jf_abbey, jf_kid_a] \<and>
   tpl_Albums (fst (renderForm sample_unicode [] []
       (snd (renderForm sample_unicode [rym_abbey] [] [jf_abbey, jf_kid_a]))))
     \<noteq> tpl_Albums (fst (renderForm sample_unicode [] [] [jf_abbey, jf_kid_a]))"
  using sample_matches(1,2)
  by (simp add: renderForm_def Let_def dedup_loop_filter has_match_simps)

text \<open>
  C2, as the code has it. No album is altered and the albums kept are a sub-list of the
  catalog, in its order; the result replaces the catalog and is what the page shows, so a
  second run works on what the first one left: after runs against \<open>albums\<close> and then
  \<open>albums2\<close> the catalog holds the albums of the original one with no accepted match in
  either list. A run leaves the catalog as it was exactly when no album of the catalog has
  an accepted match in the reference list; a run against the empty reference list is one
  such run.
\<close>

theorem renderForm_replaces_albumList:
  "subseq (snd (renderForm U albums errMsg albumList)) albumList \<and>
   tpl_Albums (fst (renderForm U albums errMsg albumList)) = snd (renderForm U albums errMsg albumList) \<and>
   snd (renderForm U albums2 errMsg2 (snd (renderForm U albums errMsg albumList))) =
     filter (\<lambda>l. \<not> has_match U albums l \<and> \<not> has_match U albums2 l) albumList \<and>
   (snd (renderForm U albums errMsg albumList) = albumList \<longleftrightarrow>
      (\<forall>l \<in> set albumList. \<not> has_match U albums l)) \<and>
   snd (renderForm U [] errMsg albumList) = albumList"
proof (intro conjI)
  show "snd (renderForm U albums errMsg albumList) = albumList \<longleftrightarrow>
      (\<forall>l \<in> set albumList. \<not> has_match U albums l)"
    unfolding renderForm_state by (rule filter_id_conv)
  show "subseq (snd (renderForm U albums errMsg albumList)) albumList"
    unfolding renderForm_state by (rule subseq_filter_left)
  show "tpl_Albums (fst (renderForm U albums errMsg albumList)) = snd (renderForm U albums errMsg albumList)"
    by (simp add: renderForm_def Let_def)
  show "snd (renderForm U albums2 errMsg2 (snd (renderForm U albums errMsg albumList))) =
     filter (\<lambda>l. \<not> has_match U albums l \<and> \<not> has_match U albums2 l) albumList"
    unfolding renderForm_state by (simp add: conj_commute)
  show "snd (renderForm U [] errMsg albumList) = albumList"
    unfolding renderForm_state by (simp add: has_match_simps)
qed

theorem renderForm_replaces_albumList_witness:
  "snd (renderForm sample_unicode [] [] (snd (renderForm sample_unicode [rym_abbey] [] [jf_abbey, jf_kid_a])))
     = [jf_kid_a] \<and>
   snd (renderForm sample_unicode [] [] [jf_abbey, jf_kid_a]) = [jf_abbey, jf_kid_a] \<and>
   snd (renderForm sample_unicode [rym_abbey] [] [jf_kid_a]) = [jf_kid_a] \<and>
   snd (renderForm sample_unicode [rym_abbey] [] [jf_abbey, jf_kid_a]) \<noteq> [jf_abbey, jf_kid_a]"
proof -
  note two_runs = renderForm_replaces_albumList[of sample_unicode "[rym_abbey]" "[]"
      "[jf_abbey, jf_kid_a]" "[]" "[]"]
  note empty_run = renderForm_replaces_albumList[of sample_unicode "[]" "[]"
      "[jf_abbey, jf_kid_a]" "[]" "[]"]
  note no_match_run = renderForm_replaces_albumList[of sample_unicode "[rym_abbey]" "[]"
      "[jf_kid_a]" "[]" "[]"]
  have 1: "snd (renderForm sample_unicode [] []
      (snd (renderForm sample_unicode [rym_abbey] [] [jf_abbey, jf_kid_a]))) = [jf_kid_a]"
    using two_runs sample_matches(1,2) by (simp add: has_match_simps)
  have 2: "snd (renderForm sample_unicode [] [] [jf_abbey, jf_kid_a]) = [jf_abbey, jf_kid_a]"
    using empty_run by simp
  have 3: "snd (renderForm sample_unicode [rym_abbey] [] [jf_kid_a]) = [jf_kid_a]"
    using no_match_run sample_matches(2) by (simp add: has_match_simps)
  have 4: "snd (renderForm sample_unicode [rym_abbey] [] [jf_abbey, jf_kid_a]) \<noteq> [jf_abbey, jf_kid_a]"
    using two_runs sample_matches(1) by (simp add: has_match_simps)
  from 1 2 3 4 show ?thesis by simp
qed

section \<open>Properties of the catalog fetcher\<close>

lemma offset_Suc: "offset D (Suc k) = offset D k + int (length (page_items D k))"
  by (simp add: page_items_def outcome_def request_def)

lemma offset_cumulative: "offset D k = int (length (concat (map (page_items D) [0..<k])))"
  by (induction k) (simp_all add: offset_Suc del: offset.simps(2))

lemma page_ok_cases:
  assumes "page_ok D k"
  obtains ir where "outcome D k = Responded StatusOK (Some ir)" "page_items D k = Items ir"
  using assms unfolding page_ok_def page_items_def
  by (cases "outcome D k" rule: failure_of.cases) (auto split: if_splits option.splits)

lemma loop_continue:
  assumes "page_ok D k" "\<not> page_last D k"
  shows "GetAllAlbums_loop D (offset D k) A L =
     GetAllAlbums_loop D (offset D (Suc k)) (A @ page_items D k) (L @ [request D k])"
proof -
  from assms(1) obtain ir where ir: "outcome D k = Responded StatusOK (Some ir)"
      "page_items D k = Items ir"
    by (rule page_ok_cases)
  have nl: "\<not> (TotalRecordCount ir \<le> offset D k + int (length (Items ir)) \<or> length (Items ir) = 0)"
    using assms(2) ir unfolding page_last_def offset_Suc by simp
  have D: "D \<lparr>StartIndex = offset D k, Limit = pageSize\<rparr> = Responded StatusOK (Some ir)"
    using ir(1) by (simp add: outcome_def request_def)
  show ?thesis
    unfolding offset_Suc ir(2) request_def
    by (subst GetAllAlbums_loop.simps) (use nl in \<open>simp add: D Let_def\<close>)
qed

lemma loop_last:
  assumes "page_ok D k" "page_last D k"
  shows "GetAllAlbums_loop D (offset D k) A L = Some (L @ [request D k], A @ page_items D k, None)"
proof -
  from assms(1) obtain ir where ir: "outcome D k = Responded StatusOK (Some ir)"
      "page_items D k = Items ir"
    by (rule page_ok_cases)
  have nl: "TotalRecordCount ir \<le> offset D k + int (length (Items ir)) \<or> length (Items ir) = 0"
    using assms(2) ir unfolding page_last_def offset_Suc by simp
  have D: "D \<lparr>StartIndex = offset D k, Limit = pageSize\<rparr> = Responded StatusOK (Some ir)"
    using ir(1) by (simp add: outcome_def request_def)
  show ?thesis
    unfolding ir(2) request_def
    by (subst GetAllAlbums_loop.simps) (use nl in \<open>simp add: D Let_def\<close>)
qed

lemma loop_failure:
  assumes "failure_of (outcome D k) = Some e"
  shows "GetAllAlbums_loop D (offset D k) A L =
     Some (if outcome D k = RequestNotBuilt then L else L @ [request D k], [], Some e)"
proof -
  have D: "D \<lparr>StartIndex = offset D k, Limit = pageSize\<rparr> = outcome D k"
    by (simp add: outcome_def request_def)
  show ?thesis
    using assms unfolding request_def
    by (subst GetAllAlbums_loop.simps, cases "outcome D k" rule: failure_of.cases)
       (auto simp: D Let_def split: if_splits option.splits)
qed

lemma loop_prefix:
  assumes "\<forall>k<n. page_ok D k \<and> \<not> page_last D k"
  shows "GetAllAlbums_loop D 0 [] [] =
     GetAllAlbums_loop D (offset D n) (concat (map (page_items D) [0..<n])) (map (request D) [0..<n])"
  using assms
proof (induction n)
  case 0
  then show ?case by simp
next
  case (Suc n)
  then have "GetAllAlbums_loop D 0 [] [] =
     GetAllAlbums_loop D (offset D n) (concat (map (page_items D) [0..<n])) (map (request D) [0..<n])"
    by simp
  also have "\<dots> = GetAllAlbums_loop D (offset D (Suc n))
      (concat (map (page_items D) [0..<n]) @ page_items D n) (map (request D) [0..<n] @ [request D n])"
    using Suc.prems by (intro loop_continue) simp_all
  finally show ?case by simp
qed

lemma loop_never_returns:
  assumes "GetAllAlbums_loop D s A L = Some y" "\<forall>k. page_ok D k \<and> \<not> page_last D k" "s = offset D k"
  shows False
  using assms
proof (induction D s A L y arbitrary: k rule: GetAllAlbums_loop.raw_induct[rotated 1, consumes 1])
  case (1 loop D s A L y)
  from 1(3) have ok: "page_ok D k" and nlast: "\<not> page_last D k" by simp_all
  from ok obtain ir where ir: "outcome D k = Responded StatusOK (Some ir)"
    "page_items D k = Items ir"
    by (rule page_ok_cases)
  have nl: "\<not> (TotalRecordCount ir \<le> offset D k + int (length (Items ir)) \<or> length (Items ir) = 0)"
    using nlast ir unfolding page_last_def offset_Suc by simp
  have D: "D \<lparr>StartIndex = offset D k, Limit = pageSize\<rparr> = Responded StatusOK (Some ir)"
    using ir(1) by (simp add: outcome_def request_def)
  from 1(2) have "loop D (offset D (Suc k)) (A @ Items ir) (L @ [request D k]) = Some y"
    unfolding 1(4) offset_Suc ir(2) request_def using nl by (simp add: D Let_def)
  then show ?case
    using 1(1) 1(3) by blast
qed

lemma loop_diverges:
  assumes "\<forall>k. page_ok D k \<and> \<not> page_last D k"
  shows "GetAllAlbums_loop D 0 [] [] = None"
proof (cases "GetAllAlbums_loop D 0 [] []")
  case None
  then show ?thesis .
next
  case (Some y)
  from loop_never_returns[OF Some assms, of 0] show ?thesis by simp
qed

lemma loop_first_halt:
  assumes pre: "\<forall>k<n. page_ok D k \<and> \<not> page_last D k"
    and halt: "\<not> page_ok D n \<or> page_last D n"
  shows "GetAllAlbums_loop D 0 [] [] =
     Some (if page_ok D n
           then (map (request D) [0..<Suc n], concat (map (page_items D) [0..<Suc n]), None)
           else (map (request D) [0..<(if outcome D n = RequestNotBuilt then n else Suc n)], [],
                 failure_of (outcome D n)))"
proof (cases "page_ok D n")
  case True
  then have "page_last D n" using halt by simp
  from loop_last[OF True this] loop_prefix[OF pre] True
  show ?thesis by simp
next
  case False
  then obtain e where e: "failure_of (outcome D n) = Some e"
    unfolding page_ok_def by blast
  from loop_failure[OF e] loop_prefix[OF pre] False e
  show ?thesis by simp
qed

lemma halting_page:
  assumes "\<exists>n. \<not> page_ok D n \<or> page_last D n"
  obtains n where "\<forall>k<n. page_ok D k \<and> \<not> page_last D k" "\<not> page_ok D n \<or> page_last D n"
proof -
  define n where "n = (LEAST n. \<not> page_ok D n \<or> page_last D n)"
  have 1: "\<not> page_ok D n \<or> page_last D n"
    unfolding n_def using assms by (rule LeastI_ex)
  have 2: "page_ok D k \<and> \<not> page_last D k" if "k < n" for k
    using not_less_Least[of k "\<lambda>n. \<not> page_ok D n \<or> page_last D n"] that
    unfolding n_def by blast
  from 1 2 that show thesis by blast
qed

lemma loop_returns_iff:
  "(\<exists>r. GetAllAlbums_loop D 0 [] [] = Some r) \<longleftrightarrow> (\<exists>n. \<not> page_ok D n \<or> page_last D n)"
proof
  assume "\<exists>r. GetAllAlbums_loop D 0 [] [] = Some r"
  then show "\<exists>n. \<not> page_ok D n \<or> page_last D n"
    using loop_diverges[of D] by fastforce
next
  assume "\<exists>n. \<not> page_ok D n \<or> page_last D n"
  then obtain n where "\<forall>k<n. page_ok D k \<and> \<not> page_last D k" "\<not> page_ok D n \<or> page_last D n"
    by (rule halting_page)
  from loop_first_halt[OF this] show "\<exists>r. GetAllAlbums_loop D 0 [] [] = Some r"
    by blast
qed

lemma loop_success_iff:
  "GetAllAlbums_loop D 0 [] [] = Some (sent, all, None) \<longleftrightarrow>
     (\<exists>n. (\<forall>k\<le>n. page_ok D k) \<and> (\<forall>k<n. \<not> page_last D k) \<and> page_last D n \<and>
          sent = map (request D) [0..<Suc n] \<and> all = concat (map (page_items D) [0..<Suc n]))"
proof
  assume run: "GetAllAlbums_loop D 0 [] [] = Some (sent, all, None)"
  then have "\<exists>n. \<not> page_ok D n \<or> page_last D n"
    using loop_returns_iff[of D] by blast
  then obtain n where n: "\<forall>k<n. page_ok D k \<and> \<not> page_last D k" "\<not> page_ok D n \<or> page_last D n"
    by (rule halting_page)
  have ok: "page_ok D n"
  proof (rule ccontr)
    assume nok: "\<not> page_ok D n"
    then obtain e where "failure_of (outcome D n) = Some e"
      unfolding page_ok_def by blast
    then show False
      using loop_first_halt[OF n] run nok by simp
  qed
  then have res: "sent = map (request D) [0..<Suc n]" "all = concat (map (page_items D) [0..<Suc n])"
    using loop_first_halt[OF n] run by simp_all
  have "\<forall>k\<le>n. page_ok D k" using n(1) ok by (auto simp: le_less)
  then show "\<exists>n. (\<forall>k\<le>n. page_ok D k) \<and> (\<forall>k<n. \<not> page_last D k) \<and> page_last D n \<and>
          sent = map (request D) [0..<Suc n] \<and> all = concat (map (page_items D) [0..<Suc n])"
    using n ok res by blast
next
  assume "\<exists>n. (\<forall>k\<le>n. page_ok D k) \<and> (\<forall>k<n. \<not> page_last D k) \<and> page_last D n \<and>
          sent = map (request D) [0..<Suc n] \<and> all = concat (map (page_items D) [0..<Suc n])"
  then obtain n where n: "\<forall>k\<le>n. page_ok D k" "\<forall>k<n. \<not> page_last D k" "page_last D n"
    "sent = map (request D) [0..<Suc n]" "all = concat (map (page_items D) [0..<Suc n])"
    by blast
  have "\<forall>k<n. page_ok D k \<and> \<not> page_last D k" using n(1,2) by simp
  from loop_first_halt[OF this, of ] n
  show "GetAllAlbums_loop D 0 [] [] = Some (sent, all, None)"
    by simp
qed

lemma loop_error_no_items:
  assumes "GetAllAlbums_loop D 0 [] [] = Some (sent, all, Some e)"
  shows "all = []"
proof -
  have "\<exists>n. \<not> page_ok D n \<or> page_last D n"
    using loop_returns_iff[of D] assms by blast
  then obtain n where n: "\<forall>k<n. page_ok D k \<and> \<not> page_last D k" "\<not> page_ok D n \<or> page_last D n"
    by (rule halting_page)
  show ?thesis
    using loop_first_halt[OF n] assms by (simp split: if_splits)
qed

text \<open>
  C3. The fetcher asks for pages of 200 from offset 0 on, moves the offset on by the number
  of items each page brought, appends the items of the pages in the order they came, and its
  loop ends exactly at the first page after which the number of items received is at least
  the total that page reports, or which brought no items. The offset of the \<open>k\<close>-th request
  is the number of items received so far. The fetch returns iff some page fails or is such
  a last page: against a server whose pages all succeed and never end, it runs for ever.
\<close>

theorem GetAllAlbums_pagination:
  assumes "BaseURL_parses c"
  shows "request (Do c) 0 = \<lparr>StartIndex = 0, Limit = 200\<rparr> \<and>
    request (Do c) (Suc k) =
      \<lparr>StartIndex = StartIndex (request (Do c) k) + int (length (page_items (Do c) k)), Limit = 200\<rparr> \<and>
    offset (Do c) k = int (length (concat (map (page_items (Do c)) [0..<k]))) \<and>
    (GetAllAlbums c = Some (sent, all, None) \<longleftrightarrow>
       (\<exists>n. (\<forall>k\<le>n. page_ok (Do c) k) \<and> (\<forall>k<n. \<not> page_last (Do c) k) \<and> page_last (Do c) n \<and>
            sent = map (request (Do c)) [0..<Suc n] \<and>
            all = concat (map (page_items (Do c)) [0..<Suc n]))) \<and>
    ((\<exists>r. GetAllAlbums c = Some r) \<longleftrightarrow> (\<exists>n. \<not> page_ok (Do c) n \<or> page_last (Do c) n))"
proof (intro conjI)
  show "request (Do c) 0 = \<lparr>StartIndex = 0, Limit = 200\<rparr>"
    by (simp add: request_def pageSize_def)
  show "request (Do c) (Suc k) =
      \<lparr>StartIndex = StartIndex (request (Do c) k) + int (length (page_items (Do c) k)), Limit = 200\<rparr>"
    unfolding request_def offset_Suc by (simp add: pageSize_def)
  show "offset (Do c) k = int (length (concat (map (page_items (Do c)) [0..<k])))"
    by (rule offset_cumulative)
  show "GetAllAlbums c = Some (sent, all, None) \<longleftrightarrow>
       (\<exists>n. (\<forall>k\<le>n. page_ok (Do c) k) \<and> (\<forall>k<n. \<not> page_last (Do c) k) \<and> page_last (Do c) n \<and>
            sent = map (request (Do c)) [0..<Suc n] \<and>
            all = concat (map (page_items (Do c)) [0..<Suc n]))"
    using assms loop_success_iff[of "Do c" sent all] by (simp add: GetAllAlbums_def)
  show "(\<exists>r. GetAllAlbums c = Some r) \<longleftrightarrow> (\<exists>n. \<not> page_ok (Do c) n \<or> page_last (Do c) n)"
    using assms loop_returns_iff[of "Do c"] by (simp add: GetAllAlbums_def)
qed

text \<open>
  C4. If a page request of the fetch meets a transport error, a status other than 200 or a
  body that does not decode, the fetch returns an error and no items, whatever the pages
  before brought; and no result of the fetch carries both an error and items.
\<close>

theorem GetAllAlbums_failure_no_items:
  assumes "BaseURL_parses c"
    and "\<forall>k<n. page_ok (Do c) k \<and> \<not> page_last (Do c) k"
    and "outcome (Do c) n = TransportFailed \<or>
         (\<exists>status body. outcome (Do c) n = Responded status body \<and> status \<noteq> StatusOK) \<or>
         outcome (Do c) n = Responded StatusOK None"
  shows "(\<exists>e. GetAllAlbums c = Some (map (request (Do c)) [0..<Suc n], [], Some e)) \<and>
    (\<forall>sent all e. GetAllAlbums c = Some (sent, all, Some e) \<longrightarrow> all = [])"
proof
  from assms(3) obtain e where e: "failure_of (outcome (Do c) n) = Some e"
    "outcome (Do c) n \<noteq> RequestNotBuilt"
    by auto
  then have "\<not> page_ok (Do c) n" by (simp add: page_ok_def)
  from loop_first_halt[OF assms(2), of ] this e assms(1)
  show "\<exists>e. GetAllAlbums c = Some (map (request (Do c)) [0..<Suc n], [], Some e)"
    by (simp add: GetAllAlbums_def)
  show "\<forall>sent all e. GetAllAlbums c = Some (sent, all, Some e) \<longrightarrow> all = []"
    using assms(1) loop_error_no_items[of "Do c"] by (simp add: GetAllAlbums_def)
qed

lemma two_page_server_pages:
  "outcome two_page_server 0 = Responded 200 (Some \<lparr>Items = replicate 200 jf_abbey, TotalRecordCount = 250\<rparr>)"
  "offset two_page_server (Suc 0) = 200"
  "outcome two_page_server (Suc 0) = Responded 200 (Some \<lparr>Items = replicate 50 jf_kid_a, TotalRecordCount = 250\<rparr>)"
  "offset two_page_server (Suc (Suc 0)) = 250"
  by (simp_all add: outcome_def request_def two_page_server_def StatusOK_def)

lemma failing_server_pages:
  "outcome failing_server 0 = Responded 200 (Some \<lparr>Items = replicate 200 jf_abbey, TotalRecordCount = 250\<rparr>)"
  "offset failing_server (Suc 0) = 200"
  "outcome failing_server (Suc 0) = Responded 500 None"
  by (simp_all add: outcome_def request_def failing_server_def StatusOK_def)

theorem GetAllAlbums_pagination_witness:
  "GetAllAlbums \<lparr>BaseURL_parses = True, Do = two_page_server\<rparr> =
     Some ([\<lparr>StartIndex = 0, Limit = 200\<rparr>, \<lparr>StartIndex = 200, Limit = 200\<rparr>],
           replicate 200 jf_abbey @ replicate 50 jf_kid_a, None)"
proof -
  let ?c = "\<lparr>BaseURL_parses = True, Do = two_page_server\<rparr>"
  have c: "BaseURL_parses ?c" "Do ?c = two_page_server" by simp_all
  have ok: "\<forall>k\<le>Suc 0. page_ok two_page_server k"
    by (simp add: le_Suc_eq page_ok_def two_page_server_pages StatusOK_def)
  have nl: "\<forall>k<Suc 0. \<not> page_last two_page_server k"
    by (simp add: page_last_def two_page_server_pages StatusOK_def del: offset.simps)
  have l: "page_last two_page_server (Suc 0)"
    by (simp add: page_last_def two_page_server_pages StatusOK_def del: offset.simps)
  have s: "[\<lparr>StartIndex = 0, Limit = 200\<rparr>, \<lparr>StartIndex = 200, Limit = 200\<rparr>] =
      map (request two_page_server) [0..<Suc (Suc 0)]"
    by (simp add: request_def two_page_server_pages pageSize_def del: offset.simps(2))
  have a: "replicate 200 jf_abbey @ replicate 50 jf_kid_a =
      concat (map (page_items two_page_server) [0..<Suc (Suc 0)])"
    by (simp add: page_items_def two_page_server_pages StatusOK_def)
  note iff = GetAllAlbums_pagination[OF c(1), of 0
        "[\<lparr>StartIndex = 0, Limit = 200\<rparr>, \<lparr>StartIndex = 200, Limit = 200\<rparr>]"
        "replicate 200 jf_abbey @ replicate 50 jf_kid_a",
        unfolded c(2), THEN conjunct2, THEN conjunct2, THEN conjunct2, THEN conjunct1]
  show ?thesis
    by (rule iffD2[OF iff], rule exI[of _ "Suc 0"], intro conjI) (rule ok nl l s a)+
qed

theorem GetAllAlbums_failure_no_items_witness:
  "\<exists>e. GetAllAlbums \<lparr>BaseURL_parses = True, Do = failing_server\<rparr> =
     Some ([\<lparr>StartIndex = 0, Limit = 200\<rparr>, \<lparr>StartIndex = 200, Limit = 200\<rparr>], [], Some e)"
proof -
  let ?c = "\<lparr>BaseURL_parses = True, Do = failing_server\<rparr>"
  have c: "BaseURL_parses ?c" "Do ?c = failing_server" by simp_all
  have pre: "\<forall>k<Suc 0. page_ok (Do ?c) k \<and> \<not> page_last (Do ?c) k"
    unfolding c(2) by (simp add: page_ok_def page_last_def failing_server_pages StatusOK_def del: offset.simps)
  have bad: "outcome (Do ?c) (Suc 0) = TransportFailed \<or>
         (\<exists>status body. outcome (Do ?c) (Suc 0) = Responded status body \<and> status \<noteq> StatusOK) \<or>
         outcome (Do ?c) (Suc 0) = Responded StatusOK None"
    unfolding c(2) by (simp add: failing_server_pages StatusOK_def)
  have s: "map (request failing_server) [0..<Suc (Suc 0)] =
      [\<lparr>StartIndex = 0, Limit = 200\<rparr>, \<lparr>StartIndex = 200, Limit = 200\<rparr>]"
    by (simp add: request_def failing_server_pages pageSize_def del: offset.simps(2))
  show ?thesis
    using GetAllAlbums_failure_no_items[OF c(1) pre bad] unfolding c(2) s by blast
qed

section \<open>The parser on short rows\<close>

lemma rows_loop_panics_iff:
  "(\<exists>p. rows_loop U out rows = Panic p) \<longleftrightarrow> (\<exists>cols \<in> set rows. length cols < 7)"
  by (induction rows arbitrary: out) (auto simp: Let_def trimAll_def)

lemma parseRymCSV_panics_iff:
  assumes "csv_ReadAll (stripBOM data) = Some rows"
  shows "(\<exists>p. parseRymCSV U csv_ReadAll (Some data) = Panic p) \<longleftrightarrow>
     rows \<noteq> [] \<and> 12 \<le> length (hd rows) \<and> (\<exists>cols \<in> set (tl rows). length cols < 7)"
proof (cases rows)
  case Nil
  then show ?thesis using assms by (simp add: parseRymCSV_def)
next
  case (Cons h t)
  show ?thesis
    using assms rows_loop_panics_iff[of U "[]" t] unfolding Cons
    by (auto simp: parseRymCSV_def Let_def trimAll_def split: outcome.splits)
qed

text \<open>
  C5. The parser is said to return records or report a validation error on every input,
  and never to panic. It checks the number of columns of the header row only: on a header
  of 12 columns followed by the one-column row \<open>x\<close> it panics at \<^verbatim>\<open>cols[6]\<close>.
\<close>

theorem parseRymCSV_short_row_panics:
  "parseRymCSV sample_unicode csv_plain_ReadAll
     (Some (runes ''a,b,c,d,e,f,g,h,i,j,k,l'' @ [10] @ runes ''x'' @ [10])) = Panic (IndexOutOfRange 6 1)"
  by code_simp

end
